theory Spec2Isabelle
  imports Main
begin

section \<open>Resolvables: a shallow embedding of resolvable.go and backoff.go\<close>

text \<open>
  A resolvable is a Go function value \<^verbatim>\<open>func(ctx context.Context) (T, error)\<close>. It may read
  and change anything outside the decorators (counters, the network, an injected clock), so
  a call is a function on a world \<open>'w\<close> that returns the pair \<open>(value, error)\<close> and the new
  world. The Go \<^verbatim>\<open>error\<close> interface is \<open>'e option\<close>, with \<open>None\<close> for \<^verbatim>\<open>nil\<close>.

  Instants (\<^verbatim>\<open>time.Time\<close>) are integers, the nanoseconds since the zero instant, so that
  \<^verbatim>\<open>IsZero\<close> is \<open>t = 0\<close>, \<^verbatim>\<open>Before\<close> is \<open><\<close>, \<^verbatim>\<open>Add\<close> is \<open>+\<close> and \<^verbatim>\<open>Sub\<close> is \<open>-\<close>.
  Durations (\<^verbatim>\<open>time.Duration\<close>) are integers of nanoseconds; the program compares them
  and hands them to \<^verbatim>\<open>Add\<close>, and does no arithmetic of its own on them.

  Every call to a collaborator is logged, in order, in a list of events returned with the
  result: a clock read with the instant it returned, the two methods of the backoff policy,
  an invocation of a user function with the result it returned, and the two operations on
  the mutex.
\<close>

type_synonym time = int
type_synonym duration = int

type_synonym ('v, 'e) result = "'v \<times> 'e option"

datatype ('v, 'e) event =
    ClockRead time
  | BackoffReset
  | BackoffNext duration
  | is_Invoked: Invoked "('v, 'e) result"
  | MutexLock
  | MutexUnlock

text \<open>The results of the user functions that a log shows invoked, in order.\<close>

fun invocations :: "('v, 'e) event list \<Rightarrow> ('v, 'e) result list" where
  "invocations [] = []"
| "invocations (Invoked res # tr) = res # invocations tr"
| "invocations (x # tr) = invocations tr"

subsection \<open>backoff.go\<close>

text \<open>The interface \<^verbatim>\<open>BackOff\<close>: two methods acting on the policy's state, which is part of the world.\<close>

record 'w BackOff =
  NextBackOff :: "'w \<Rightarrow> duration \<times> 'w"
  Reset :: "'w \<Rightarrow> 'w"

definition BackOffStop :: duration where
  "BackOffStop = - 1"

definition zeroBackoff :: "'w BackOff" where
  "zeroBackoff = \<lparr>NextBackOff = (\<lambda>w. (0, w)), Reset = (\<lambda>w. w)\<rparr>"

subsection \<open>resolvable.go: option structs\<close>

record 'w RetryOpts =
  Backoff :: "'w BackOff option"
  MaxTries :: int

text \<open>
  \<^verbatim>\<open>CacheOpts\<close>. The field \<open>RetryOpts\<close> is the one that \<^verbatim>\<open>Retry\<close> sets and that
  \<^verbatim>\<open>cache.backoff\<close> reads (\<^verbatim>\<open>e.RetryOpts.Backoff\<close>). A \<^verbatim>\<open>nil\<close> function \<^verbatim>\<open>Now\<close> is \<open>None\<close>.
\<close>

record 'w CacheOpts =
  Expiry :: duration
  Retry :: bool
  Now :: "('w \<Rightarrow> time \<times> 'w) option"
  RetryOpts :: "'w RetryOpts"

text \<open>\<^verbatim>\<open>CacheOpts.now\<close>; its first argument stands for the wall clock \<^verbatim>\<open>time.Now\<close>.\<close>

definition CacheOpts_now ::
  "('w \<Rightarrow> time \<times> 'w) \<Rightarrow> ('w, 'z) CacheOpts_scheme \<Rightarrow> 'w \<Rightarrow> time \<times> 'w" where
  "CacheOpts_now time_Now opts w = (case Now opts of Some f \<Rightarrow> f w | None \<Rightarrow> time_Now w)"

record 'w options =
  once :: bool
  retry :: bool
  graceful :: bool
  expiry :: duration
  now :: "('w \<Rightarrow> time \<times> 'w) option"
  safe :: bool
  retryOpts :: "'w RetryOpts"

definition WithOnce :: "'w options \<Rightarrow> 'w options" where
  "WithOnce opt = opt\<lparr>once := True\<rparr>"

definition WithRetry :: "'w options \<Rightarrow> 'w options" where
  "WithRetry opt = opt\<lparr>retry := True\<rparr>"

definition WithRetryOpts :: "'w RetryOpts \<Rightarrow> 'w options \<Rightarrow> 'w options" where
  "WithRetryOpts opts opt = opt\<lparr>retryOpts := opts\<rparr>"

definition WithGraceful :: "'w options \<Rightarrow> 'w options" where
  "WithGraceful opt = opt\<lparr>graceful := True\<rparr>"

definition WithCacheTTL :: "duration \<Rightarrow> 'w options \<Rightarrow> 'w options" where
  "WithCacheTTL ttl opt = opt\<lparr>expiry := ttl\<rparr>"

definition WithNow :: "('w \<Rightarrow> time \<times> 'w) \<Rightarrow> 'w options \<Rightarrow> 'w options" where
  "WithNow f opt = opt\<lparr>now := Some f\<rparr>"

definition WithUnsafe :: "'w options \<Rightarrow> 'w options" where
  "WithUnsafe opt = opt\<lparr>safe := False\<rparr>"

definition WithSafe :: "'w options \<Rightarrow> 'w options" where
  "WithSafe opt = opt\<lparr>safe := True\<rparr>"

subsection \<open>The cache (the revision with a backoff policy)\<close>

text \<open>
  The struct \<^verbatim>\<open>cache[T]\<close> embeds \<^verbatim>\<open>CacheOpts\<close>. The pointer \<^verbatim>\<open>value *T\<close> is an option
  (\<open>cvalue\<close>), \<^verbatim>\<open>nil\<close> being \<open>None\<close>. The field \<^verbatim>\<open>resolvable\<close> is kept beside the record: the
  functions below take the call of the wrapped closure (\<open>resolvable\<close>, which returns the
  closure with its state updated) and the closure itself (\<open>r\<close>, returned as it is when it
  was not called).
\<close>

record ('w, 'v, 'e) cache = "'w CacheOpts" +
  cvalue :: "'v option"
  err :: "'e option"
  nextResolve :: time

definition cache_backoff :: "('w, 'v, 'e, 'z) cache_scheme \<Rightarrow> 'w BackOff" where
  "cache_backoff e = (case Backoff (RetryOpts e) of None \<Rightarrow> zeroBackoff | Some b \<Rightarrow> b)"

text \<open>
  The second half of \<^verbatim>\<open>cache.Resolve\<close>, from the call of the wrapped resolvable to the
  return of its result; \<open>tr\<close> is the log of the first half.
\<close>

definition cache_resolve_now ::
  "('w \<Rightarrow> time \<times> 'w) \<Rightarrow> ('c \<Rightarrow> 'w \<Rightarrow> ('v, 'e) result \<times> 'r \<times> 'w \<times> ('v, 'e) event list) \<Rightarrow>
   ('w, 'v, 'e) cache \<Rightarrow> 'r \<Rightarrow> 'c \<Rightarrow> 'w \<Rightarrow> ('v, 'e) event list \<Rightarrow>
   ('v, 'e) result \<times> ('w, 'v, 'e) cache \<times> 'r \<times> 'w \<times> ('v, 'e) event list" where
  "cache_resolve_now time_Now resolvable e r ctx w tr =
     (case resolvable ctx w of ((v, er), r', w1, tr1) \<Rightarrow>
        let e1 = e\<lparr>cvalue := Some v, err := er\<rparr> in
        (case (if er = None then (Expiry e1, Reset (cache_backoff e1) w1, [BackoffReset])
               else if Retry e1 then
                 (case NextBackOff (cache_backoff e1) w1 of (d, w2) \<Rightarrow> (d, w2, [BackoffNext d]))
               else (Expiry e1, w1, []))
         of (next, w2, tr2) \<Rightarrow>
           (case CacheOpts_now time_Now e1 w2 of (t, w3) \<Rightarrow>
              ((v, er), e1\<lparr>nextResolve := t + next\<rparr>, r', w3, tr @ tr1 @ tr2 @ [ClockRead t]))))"

text \<open>
  \<^verbatim>\<open>cache.Resolve\<close>. The first clock read is the one made for the arguments of the
  \<^verbatim>\<open>Printf\<close> line; the text it prints is not part of the model. The second read is made only
  when a value is present (the \<^verbatim>\<open>&&\<close> is short-circuit).
\<close>

definition cache_Resolve ::
  "('w \<Rightarrow> time \<times> 'w) \<Rightarrow> ('c \<Rightarrow> 'w \<Rightarrow> ('v, 'e) result \<times> 'r \<times> 'w \<times> ('v, 'e) event list) \<Rightarrow>
   ('w, 'v, 'e) cache \<Rightarrow> 'r \<Rightarrow> 'c \<Rightarrow> 'w \<Rightarrow>
   ('v, 'e) result \<times> ('w, 'v, 'e) cache \<times> 'r \<times> 'w \<times> ('v, 'e) event list" where
  "cache_Resolve time_Now resolvable e r ctx w =
     (case CacheOpts_now time_Now e w of (t0, w0) \<Rightarrow>
        (case cvalue e of
           Some v0 \<Rightarrow>
             (case CacheOpts_now time_Now e w0 of (t1, w1) \<Rightarrow>
                if t1 < nextResolve e then ((v0, err e), e, r, w1, [ClockRead t0, ClockRead t1])
                else cache_resolve_now time_Now resolvable e r ctx w1 [ClockRead t0, ClockRead t1])
         | None \<Rightarrow>
             cache_resolve_now time_Now resolvable e r ctx (Reset (cache_backoff e) w0)
               [ClockRead t0, BackoffReset]))"

subsection \<open>Graceful\<close>

text \<open>
  The closure returned by \<^verbatim>\<open>Graceful\<close>, with its captured variable \<^verbatim>\<open>lastGood *T\<close> as an
  option. It returns the new \<open>lastGood\<close> with the result.
\<close>

definition Graceful_call ::
  "('c \<Rightarrow> 'w \<Rightarrow> ('v, 'e) result \<times> 'r \<times> 'w \<times> ('v, 'e) event list) \<Rightarrow>
   'v option \<Rightarrow> 'r \<Rightarrow> 'c \<Rightarrow> 'w \<Rightarrow> ('v, 'e) result \<times> 'v option \<times> 'r \<times> 'w \<times> ('v, 'e) event list" where
  "Graceful_call resolvable lastGood r ctx w =
     (case resolvable ctx w of ((v, er), r', w', tr) \<Rightarrow>
        (case (er, lastGood) of
           (Some x, Some g) \<Rightarrow> ((g, er), lastGood, r', w', tr)
         | _ \<Rightarrow> ((v, er), Some v, r', w', tr)))"

subsection \<open>Resolvables as values\<close>

text \<open>
  A value of type \<^verbatim>\<open>Ctx[T]\<close> is a closure: code together with the variables it captured.
  Each constructor below is one of the closures the package builds, holding its captured
  state: a user function, the closure of \<^verbatim>\<open>Static\<close>, of \<^verbatim>\<open>Graceful\<close> (with \<^verbatim>\<open>lastGood\<close>),
  the method value \<^verbatim>\<open>e.Resolve\<close> of a cache \<^verbatim>\<open>e\<close>, and the closure of \<^verbatim>\<open>Safe\<close>. A call
  returns the closure with its state updated.
\<close>

datatype ('c, 'w, 'v, 'e) Ctx =
    Fn "'c \<Rightarrow> 'w \<Rightarrow> ('v, 'e) result \<times> 'w"
  | StaticC 'v
  | GracefulC "'v option" "('c, 'w, 'v, 'e) Ctx"
  | CacheC "('w, 'v, 'e) cache" "('c, 'w, 'v, 'e) Ctx"
  | SafeC "('c, 'w, 'v, 'e) Ctx"

fun call ::
  "('w \<Rightarrow> time \<times> 'w) \<Rightarrow> ('c, 'w, 'v, 'e) Ctx \<Rightarrow> 'c \<Rightarrow> 'w \<Rightarrow>
   ('v, 'e) result \<times> ('c, 'w, 'v, 'e) Ctx \<times> 'w \<times> ('v, 'e) event list" where
  "call time_Now (Fn f) ctx w = (case f ctx w of (res, w') \<Rightarrow> (res, Fn f, w', [Invoked res]))"
| "call time_Now (StaticC v) ctx w = ((v, None), StaticC v, w, [])"
| "call time_Now (GracefulC lastGood r) ctx w =
     (case Graceful_call (call time_Now r) lastGood r ctx w of
        (res, lastGood', r', w', tr) \<Rightarrow> (res, GracefulC lastGood' r', w', tr))"
| "call time_Now (CacheC e r) ctx w =
     (case cache_Resolve time_Now (call time_Now r) e r ctx w of
        (res, e', r', w', tr) \<Rightarrow> (res, CacheC e' r', w', tr))"
| "call time_Now (SafeC r) ctx w =
     (case call time_Now r ctx w of
        (res, r', w', tr) \<Rightarrow> (res, SafeC r', w', MutexLock # tr @ [MutexUnlock]))"

text \<open>A caller making one call after the other, one per context of the list.\<close>

fun calls ::
  "('w \<Rightarrow> time \<times> 'w) \<Rightarrow> ('c, 'w, 'v, 'e) Ctx \<Rightarrow> 'c list \<Rightarrow> 'w \<Rightarrow>
   ('v, 'e) result list \<times> ('c, 'w, 'v, 'e) Ctx \<times> 'w \<times> ('v, 'e) event list" where
  "calls time_Now v [] w = ([], v, w, [])"
| "calls time_Now v (ctx # ctxs) w =
     (case call time_Now v ctx w of (res, v', w', tr) \<Rightarrow>
        (case calls time_Now v' ctxs w' of (ress, v'', w'', tr') \<Rightarrow>
           (res # ress, v'', w'', tr @ tr')))"

subsection \<open>The constructors of the package\<close>

definition Graceful :: "('c, 'w, 'v, 'e) Ctx \<Rightarrow> ('c, 'w, 'v, 'e) Ctx" where
  "Graceful resolvable = GracefulC None resolvable"

text \<open>\<^verbatim>\<open>Cache\<close>: a new \<^verbatim>\<open>cache\<close> with the given options and every other field at its zero value.\<close>

definition Cache :: "('c, 'w, 'v, 'e) Ctx \<Rightarrow> 'w CacheOpts \<Rightarrow> ('c, 'w, 'v, 'e) Ctx" where
  "Cache resolvable opts =
     CacheC (CacheOpts.extend opts (cache.fields None None 0)) resolvable"

definition Once :: "('c, 'w, 'v, 'e) Ctx \<Rightarrow> ('c, 'w, 'v, 'e) Ctx" where
  "Once resolvable =
     Cache resolvable \<lparr>Expiry = 0, Retry = False, Now = None,
       RetryOpts = \<lparr>Backoff = None, MaxTries = 0\<rparr>\<rparr>"

definition Retry_fn :: "('c, 'w, 'v, 'e) Ctx \<Rightarrow> 'w RetryOpts \<Rightarrow> ('c, 'w, 'v, 'e) Ctx" where
  "Retry_fn resolvable opts =
     Cache resolvable \<lparr>Expiry = 0, Retry = True, Now = None, RetryOpts = opts\<rparr>"

definition Safe :: "('c, 'w, 'v, 'e) Ctx \<Rightarrow> ('c, 'w, 'v, 'e) Ctx" where
  "Safe resolvable = SafeC resolvable"

definition Static :: "'v \<Rightarrow> ('c, 'w, 'v, 'e) Ctx" where
  "Static v = StaticC v"

subsection \<open>New\<close>

text \<open>The options \<^verbatim>\<open>New\<close> starts from, and the loop that applies the given ones in order.\<close>

definition default_options :: "'w options" where
  "default_options = \<lparr>once = False, retry = False, graceful = False, expiry = 0, now = None,
     safe = True, retryOpts = \<lparr>Backoff = None, MaxTries = 0\<rparr>\<rparr>"

definition apply_options :: "('w options \<Rightarrow> 'w options) list \<Rightarrow> 'w options" where
  "apply_options opts = foldl (\<lambda>os opt. opt os) default_options opts"

definition New ::
  "('c \<Rightarrow> 'w \<Rightarrow> ('v, 'e) result \<times> 'w) \<Rightarrow> ('w options \<Rightarrow> 'w options) list \<Rightarrow>
   ('c, 'w, 'v, 'e) Ctx" where
  "New fn opts =
     (let os = apply_options opts;
          v0 = Fn fn;
          v1 = (if graceful os then Graceful v0 else v0);
          v2 = (if 0 < expiry os then
                  Cache v1 \<lparr>Expiry = expiry os, Retry = retry os, Now = now os,
                    RetryOpts = \<lparr>Backoff = None, MaxTries = 0\<rparr>\<rparr>
                else if retry os then Retry_fn v1 (retryOpts os)
                else if once os then Once v1
                else v1)
      in if safe os then Safe v2 else v2)"

subsection \<open>The layers of a resolvable\<close>

text \<open>The decorators of a resolvable from the outermost to the user function, a cache with
  its \<^verbatim>\<open>Expiry\<close> and \<^verbatim>\<open>Retry\<close>.\<close>

datatype layer = MutexL | CacheL duration bool | GracefulL | StaticL | UserFn

fun layers :: "('c, 'w, 'v, 'e) Ctx \<Rightarrow> layer list" where
  "layers (Fn f) = [UserFn]"
| "layers (StaticC v) = [StaticL]"
| "layers (GracefulC lastGood r) = GracefulL # layers r"
| "layers (CacheC e r) = CacheL (Expiry e) (Retry e) # layers r"
| "layers (SafeC r) = MutexL # layers r"

subsection \<open>The earlier revision of the cache and of Graceful\<close>

text \<open>
  The file holds an earlier revision of the package, without backoff. Its cache is the struct
  \<^verbatim>\<open>expirable[T]\<close>, which keeps the instant of the last resolution (\<^verbatim>\<open>resolvedAt\<close>) and the
  value itself, not a pointer to it. Its \<^verbatim>\<open>CacheOpts\<close> has the fields \<^verbatim>\<open>Expiry\<close>, \<^verbatim>\<open>Retry\<close>
  and \<^verbatim>\<open>Now\<close> only; the record above is used for it, its field \<open>RetryOpts\<close> never read.
\<close>

record ('w, 'v, 'e) expirable = "'w CacheOpts" +
  resolvedAt :: time
  xvalue :: 'v
  xerr :: "'e option"

definition expirable_expired ::
  "('w \<Rightarrow> time \<times> 'w) \<Rightarrow> ('w, 'v, 'e) expirable \<Rightarrow> 'w \<Rightarrow> bool \<times> 'w \<times> ('v, 'e) event list" where
  "expirable_expired time_Now e w =
     (if resolvedAt e = 0 then (True, w, [])
      else if Expiry e \<le> 0 then (False, w, [])
      else (case CacheOpts_now time_Now e w of (t, w') \<Rightarrow>
              (Expiry e \<le> t - resolvedAt e, w', [ClockRead t])))"

definition expirable_Resolve ::
  "('w \<Rightarrow> time \<times> 'w) \<Rightarrow> ('c \<Rightarrow> 'w \<Rightarrow> ('v, 'e) result \<times> 'r \<times> 'w \<times> ('v, 'e) event list) \<Rightarrow>
   ('w, 'v, 'e) expirable \<Rightarrow> 'r \<Rightarrow> 'c \<Rightarrow> 'w \<Rightarrow>
   ('v, 'e) result \<times> ('w, 'v, 'e) expirable \<times> 'r \<times> 'w \<times> ('v, 'e) event list" where
  "expirable_Resolve time_Now resolvable e r ctx w =
     (case expirable_expired time_Now e w of (expired, w0, tr0) \<Rightarrow>
        if expired then
          (case resolvable ctx w0 of ((v, er), r', w1, tr1) \<Rightarrow>
             let e1 = e\<lparr>xvalue := v, xerr := er\<rparr> in
             if er = None \<or> \<not> Retry e1 then
               (case CacheOpts_now time_Now e1 w1 of (t, w2) \<Rightarrow>
                  ((xvalue e1, xerr e1), e1\<lparr>resolvedAt := t\<rparr>, r', w2,
                   tr0 @ tr1 @ [ClockRead t]))
             else ((xvalue e1, xerr e1), e1, r', w1, tr0 @ tr1))
        else ((xvalue e, xerr e), e, r, w0, tr0))"

text \<open>The earlier closure of \<^verbatim>\<open>Graceful\<close> captures a value \<^verbatim>\<open>lastGood\<close> and a flag
  \<^verbatim>\<open>hasValue\<close> in place of a pointer.\<close>

definition Graceful_call_flag ::
  "('c \<Rightarrow> 'w \<Rightarrow> ('v, 'e) result \<times> 'r \<times> 'w \<times> ('v, 'e) event list) \<Rightarrow>
   'v \<times> bool \<Rightarrow> 'r \<Rightarrow> 'c \<Rightarrow> 'w \<Rightarrow>
   ('v, 'e) result \<times> ('v \<times> bool) \<times> 'r \<times> 'w \<times> ('v, 'e) event list" where
  "Graceful_call_flag resolvable st r ctx w =
     (case st of (lastGood, hasValue) \<Rightarrow>
        (case resolvable ctx w of ((v, er), r', w', tr) \<Rightarrow>
           if er \<noteq> None \<and> hasValue then ((lastGood, er), (lastGood, hasValue), r', w', tr)
           else ((v, er), (v, True), r', w', tr)))"

subsection \<open>The resolvers, the clock and the backoff policy of the worked examples\<close>

text \<open>
  The world of the package's tests: the counter \<^verbatim>\<open>count\<close> and the variable
  \<^verbatim>\<open>resolveErr\<close> that the test resolvers capture, and a wall clock.
\<close>

record world =
  count :: nat
  resolveErr :: "string option"
  clock :: time

text \<open>The resolver of \<^verbatim>\<open>TestOnce\<close>, \<^verbatim>\<open>TestGraceful\<close> and \<^verbatim>\<open>TestRetry\<close>:
  \<^verbatim>\<open>count++; return count, resolveErr\<close>.\<close>

definition counting :: "unit \<Rightarrow> world \<Rightarrow> (nat, string) result \<times> world" where
  "counting ctx w = ((Suc (count w), resolveErr w), w\<lparr>count := Suc (count w)\<rparr>)"

text \<open>The resolver of the test \<^verbatim>\<open>retryable\<close>: it fails until its third call.\<close>

definition retryable :: "unit \<Rightarrow> world \<Rightarrow> (nat, string) result \<times> world" where
  "retryable ctx w =
     (if Suc (count w) < 3 then ((0, Some ''try again''), w\<lparr>count := Suc (count w)\<rparr>)
      else ((Suc (count w), None), w\<lparr>count := Suc (count w)\<rparr>))"

text \<open>A resolver that succeeds on its odd calls and fails on its even ones, as the one of
  \<^verbatim>\<open>TestGraceful\<close> does under the test's changes of \<^verbatim>\<open>resolveErr\<close>.\<close>

definition alternating :: "unit \<Rightarrow> world \<Rightarrow> (nat, string) result \<times> world" where
  "alternating ctx w =
     ((Suc (count w), if even (count w) then None else Some ''resolve error''),
      w\<lparr>count := Suc (count w)\<rparr>)"

text \<open>A wall clock that has advanced by one nanosecond at each reading.\<close>

definition wall_clock :: "world \<Rightarrow> time \<times> world" where
  "wall_clock w = (clock w, w\<lparr>clock := clock w + 1\<rparr>)"

text \<open>A clock that an injected \<^verbatim>\<open>Now\<close> reads from the world without advancing it, as the
  tests' \<^verbatim>\<open>func() time.Time { return now }\<close>.\<close>

definition test_clock :: "world \<Rightarrow> time \<times> world" where
  "test_clock w = (clock w, w)"

text \<open>A backoff policy that has no retries left: \<^verbatim>\<open>NextBackOff\<close> returns \<^verbatim>\<open>BackOffStop\<close>.\<close>

definition exhausted :: "world BackOff" where
  "exhausted = \<lparr>NextBackOff = (\<lambda>w. (BackOffStop, w)), Reset = (\<lambda>w. w)\<rparr>"

definition world0 :: world where
  "world0 = \<lparr>count = 0, resolveErr = None, clock = 1000\<rparr>"

definition failing_world :: world where
  "failing_world = \<lparr>count = 0, resolveErr = Some ''resolve error'', clock = 1000\<rparr>"

text \<open>The cache of the test \<^verbatim>\<open>cache errors\<close>: two seconds, no retry, an injected clock.\<close>

definition ttl_cache :: "(world, nat, string) cache" where
  "ttl_cache = \<lparr>Expiry = 2000000000, Retry = False, Now = Some test_clock,
     RetryOpts = \<lparr>Backoff = None, MaxTries = 0\<rparr>, cvalue = None, err = None, nextResolve = 0\<rparr>"

text \<open>The same cache holding the failed resolution \<open>(7, resolve error)\<close> until the instant 5000.\<close>

definition warm_cache :: "(world, nat, string) cache" where
  "warm_cache = ttl_cache\<lparr>cvalue := Some 7, err := Some ''resolve error'', nextResolve := 5000\<rparr>"

text \<open>The world of \<open>failing_world\<close> one second after a first resolution.\<close>

definition later_world :: world where
  "later_world = \<lparr>count = 1, resolveErr = Some ''resolve error'', clock = 1000001000\<rparr>"

section \<open>Properties\<close>

lemmas model_defs = cache_Resolve_def cache_resolve_now_def CacheOpts_now_def cache_backoff_def
  zeroBackoff_def Graceful_call_def Once_def Retry_fn_def Cache_def Graceful_def Safe_def
  CacheOpts.extend_def cache.fields_def

lemmas example_defs = counting_def retryable_def alternating_def wall_clock_def test_clock_def exhausted_def
  world0_def failing_world_def later_world_def ttl_cache_def warm_cache_def BackOffStop_def

subsection \<open>One call of the cache\<close>

lemma invocations_append [simp]: "invocations (xs @ ys) = invocations xs @ invocations ys"
  by (induction xs rule: invocations.induct) simp_all

lemma call_Fn:
  "call tn (Fn f) ctx w = (fst (f ctx w), Fn f, snd (f ctx w), [Invoked (fst (f ctx w))])"
  by (simp add: case_prod_beta)

lemma CacheOpts_now_more [simp]:
  "CacheOpts_now tn (e\<lparr>cvalue := x\<rparr>) = CacheOpts_now tn e"
  "CacheOpts_now tn (e\<lparr>err := y\<rparr>) = CacheOpts_now tn e"
  "CacheOpts_now tn (e\<lparr>nextResolve := z\<rparr>) = CacheOpts_now tn e"
  by (simp_all add: CacheOpts_now_def fun_eq_iff)

lemma cache_backoff_more [simp]:
  "cache_backoff (e\<lparr>cvalue := x\<rparr>) = cache_backoff e"
  "cache_backoff (e\<lparr>err := y\<rparr>) = cache_backoff e"
  "cache_backoff (e\<lparr>nextResolve := z\<rparr>) = cache_backoff e"
  by (simp_all add: cache_backoff_def)

lemma cache_Resolve_hit:
  assumes "cvalue e = Some v0"
    and "CacheOpts_now tn e w = (t0, w0)"
    and "CacheOpts_now tn e w0 = (t1, w1)"
    and "t1 < nextResolve e"
  shows "cache_Resolve tn resolvable e r ctx w =
         ((v0, err e), e, r, w1, [ClockRead t0, ClockRead t1])"
  using assms by (simp add: cache_Resolve_def)

lemma cache_Resolve_expired:
  assumes "cvalue e = Some v0"
    and "CacheOpts_now tn e w = (t0, w0)"
    and "CacheOpts_now tn e w0 = (t1, w1)"
    and "\<not> t1 < nextResolve e"
  shows "cache_Resolve tn resolvable e r ctx w =
         cache_resolve_now tn resolvable e r ctx w1 [ClockRead t0, ClockRead t1]"
  using assms by (simp add: cache_Resolve_def)

lemma cache_Resolve_first:
  assumes "cvalue e = None"
    and "CacheOpts_now tn e w = (t0, w0)"
  shows "cache_Resolve tn resolvable e r ctx w =
         cache_resolve_now tn resolvable e r ctx (Reset (cache_backoff e) w0)
           [ClockRead t0, BackoffReset]"
  using assms by (simp add: cache_Resolve_def)

text \<open>The second half of \<^verbatim>\<open>Resolve\<close> around a user function: what it logs and stores.\<close>

lemma cache_resolve_now_Fn:
  assumes "cache_resolve_now tn (call tn (Fn f)) e (Fn f) ctx w tr = (res, e', r', w', tr')"
  shows "\<exists>t delay. res = fst (f ctx w) \<and> r' = Fn f
      \<and> delay = (if snd res = None \<or> \<not> Retry e then Expiry e
                 else fst (NextBackOff (cache_backoff e) (snd (f ctx w))))
      \<and> tr' = tr @ Invoked res # (if snd res = None then [BackoffReset]
                              else if Retry e then [BackoffNext delay] else []) @ [ClockRead t]
      \<and> e' = e\<lparr>cvalue := Some (fst res), err := snd res, nextResolve := t + delay\<rparr>"
  using assms
  by (auto simp add: cache_resolve_now_def call_Fn Let_def split: prod.splits if_splits)

text \<open>The two ways a call of a cache around a user function can go.\<close>

lemma cache_call_cases:
  assumes "call tn (CacheC e (Fn f)) ctx w = (res, v', w', tr)"
  shows "(\<exists>t0 t1 v0. cvalue e = Some v0 \<and> t1 < nextResolve e \<and> tr = [ClockRead t0, ClockRead t1]
            \<and> res = (v0, err e) \<and> v' = CacheC e (Fn f))
       \<or> (\<exists>pre t delay t0 t1.
            (cvalue e = None \<and> pre = [ClockRead t0, BackoffReset]
             \<or> cvalue e \<noteq> None \<and> nextResolve e \<le> t1 \<and> pre = [ClockRead t0, ClockRead t1])
            \<and> tr = pre @ Invoked res # (if snd res = None then [BackoffReset]
                              else if Retry e then [BackoffNext delay] else []) @ [ClockRead t]
            \<and> (snd res = None \<or> \<not> Retry e \<longrightarrow> delay = Expiry e)
            \<and> v' = CacheC (e\<lparr>cvalue := Some (fst res), err := snd res,
                                nextResolve := t + delay\<rparr>) (Fn f))"
proof -
  obtain t0 w0 where a: "CacheOpts_now tn e w = (t0, w0)" by fastforce
  obtain t1 w1 where b: "CacheOpts_now tn e w0 = (t1, w1)" by fastforce
  show ?thesis
  proof (cases "cvalue e")
    case None
    obtain res1 e1 r1 w2 tr1 where c:
      "cache_resolve_now tn (call tn (Fn f)) e (Fn f) ctx (Reset (cache_backoff e) w0)
         [ClockRead t0, BackoffReset] = (res1, e1, r1, w2, tr1)"
      using prod_cases5 by blast
    from cache_Resolve_first [OF None a, where resolvable = "call tn (Fn f)" and r = "Fn f"
        and ctx = ctx] c assms
    have e: "res = res1" "v' = CacheC e1 r1" "tr = tr1" by simp_all
    from cache_resolve_now_Fn [OF c] e None show ?thesis by fastforce
  next
    case (Some v0)
    show ?thesis
    proof (cases "t1 < nextResolve e")
      case True
      from cache_Resolve_hit [OF Some a b True, where resolvable = "call tn (Fn f)"
          and r = "Fn f" and ctx = ctx] assms True Some
      show ?thesis by auto
    next
      case False
      obtain res1 e1 r1 w2 tr1 where c:
        "cache_resolve_now tn (call tn (Fn f)) e (Fn f) ctx w1 [ClockRead t0, ClockRead t1]
          = (res1, e1, r1, w2, tr1)"
        using prod_cases5 by blast
      from cache_Resolve_expired [OF Some a b False, where resolvable = "call tn (Fn f)"
          and r = "Fn f" and ctx = ctx] c assms
      have e: "res = res1" "v' = CacheC e1 r1" "tr = tr1" by simp_all
      from cache_resolve_now_Fn [OF c] e Some False show ?thesis by fastforce
    qed
  qed
qed

lemma cache_call_Some:
  assumes "cvalue e = Some v"
    and "call tn (CacheC e (Fn f)) ctx w = (res, v', w', tr)"
  shows "\<exists>t0 t rest. tr = ClockRead t0 # ClockRead t # rest
      \<and> (t < nextResolve e \<longrightarrow> res = (v, err e) \<and> v' = CacheC e (Fn f) \<and> rest = [])
      \<and> (nextResolve e \<le> t \<longrightarrow> invocations tr = [res])"
  using cache_call_cases [OF assms(2)] assms(1)
  by (elim disjE exE conjE) auto

text \<open>After a resolution that succeeded, or failed without retry, the next call is decided
  by \<^verbatim>\<open>Expiry\<close> alone, whatever its sign.\<close>

lemma cache_window:
  assumes "snd res1 = None \<or> \<not> Retry e0"
    and "call tn (CacheC e0 (Fn f)) ctx w0 = (res1, v1, w1, tr1)"
    and "invocations tr1 \<noteq> []"
    and "call tn v1 ctx' w = (res2, v2, w2, tr2)"
  shows "\<exists>t_r t0 t rest. last tr1 = ClockRead t_r \<and> tr2 = ClockRead t0 # ClockRead t # rest
     \<and> (t < t_r + Expiry e0 \<longrightarrow> res2 = res1 \<and> v2 = v1 \<and> rest = [])
     \<and> (t_r + Expiry e0 \<le> t \<longrightarrow> invocations tr2 = [res2])"
proof -
  from cache_call_cases [OF assms(2)] assms(1,3)
  obtain t_r where l: "last tr1 = ClockRead t_r"
    and v1: "v1 = CacheC (e0\<lparr>cvalue := Some (fst res1), err := snd res1,
                          nextResolve := t_r + Expiry e0\<rparr>) (Fn f)"
    by (elim disjE exE conjE) auto
  let ?e1 = "e0\<lparr>cvalue := Some (fst res1), err := snd res1, nextResolve := t_r + Expiry e0\<rparr>"
  have "cvalue ?e1 = Some (fst res1)" by simp
  from cache_call_Some [OF this assms(4) [unfolded v1]] l v1 show ?thesis
    by auto
qed

subsection \<open>A cache with a time to live and no retry\<close>

text \<open>
  Claim C3. Take a cache with \<open>Expiry = D > 0\<close> and \<open>Retry = False\<close>, and a call of it that
  resolved (it invoked the wrapped resolver); let \<open>t_r\<close> be the instant it read from the clock
  after the resolution, the last event of its log. Any later call on the cache as that call
  left it reads the clock twice, the second reading \<open>t\<close> being the one it tests. If
  \<open>t - t_r < D\<close> it returns the stored pair of value and error (a stored error as well),
  leaves the cache as it was and does nothing else: the wrapped resolver is not invoked. If
  \<open>D \<le> t - t_r\<close> it invokes the wrapped resolver, once, and returns what it returned.
\<close>

theorem cache_ttl_window:
  assumes "0 < Expiry e0" and "\<not> Retry e0"
    and "call tn (CacheC e0 (Fn f)) ctx w0 = (res1, v1, w1, tr1)"
    and "invocations tr1 \<noteq> []"
    and "call tn v1 ctx' w = (res2, v2, w2, tr2)"
  shows "\<exists>t_r t0 t rest. last tr1 = ClockRead t_r \<and> tr2 = ClockRead t0 # ClockRead t # rest
     \<and> (t - t_r < Expiry e0 \<longrightarrow> res2 = res1 \<and> v2 = v1 \<and> rest = [])
     \<and> (Expiry e0 \<le> t - t_r \<longrightarrow> invocations tr2 = [res2])"
proof -
  from cache_window [OF disjI2 [OF assms(2)] assms(3-5)] obtain t_r t0 t rest where
    "last tr1 = ClockRead t_r" "tr2 = ClockRead t0 # ClockRead t # rest"
    "t < t_r + Expiry e0 \<longrightarrow> res2 = res1 \<and> v2 = v1 \<and> rest = []"
    "t_r + Expiry e0 \<le> t \<longrightarrow> invocations tr2 = [res2]"
    by blast
  then show ?thesis
    by (intro exI [of _ t_r] exI [of _ t0] exI [of _ t] exI [of _ rest]) (simp add: algebra_simps)
qed

theorem cache_ttl_window_witness:
  "0 < Expiry ttl_cache \<and> \<not> Retry ttl_cache
   \<and> invocations (snd (snd (snd (call wall_clock (CacheC ttl_cache (Fn counting)) () failing_world))))
       \<noteq> []
   \<and> (\<exists>t_r t0 t rest.
         last (snd (snd (snd (call wall_clock (CacheC ttl_cache (Fn counting)) () failing_world))))
           = ClockRead t_r
       \<and> snd (snd (snd (call wall_clock
           (fst (snd (call wall_clock (CacheC ttl_cache (Fn counting)) () failing_world)))
           () later_world))) = ClockRead t0 # ClockRead t # rest
       \<and> (t - t_r < Expiry ttl_cache \<longrightarrow>
            fst (call wall_clock
              (fst (snd (call wall_clock (CacheC ttl_cache (Fn counting)) () failing_world)))
              () later_world)
            = fst (call wall_clock (CacheC ttl_cache (Fn counting)) () failing_world)
          \<and> fst (snd (call wall_clock
              (fst (snd (call wall_clock (CacheC ttl_cache (Fn counting)) () failing_world)))
              () later_world))
            = fst (snd (call wall_clock (CacheC ttl_cache (Fn counting)) () failing_world))
          \<and> rest = [])
       \<and> (Expiry ttl_cache \<le> t - t_r \<longrightarrow>
            invocations (snd (snd (snd (call wall_clock
              (fst (snd (call wall_clock (CacheC ttl_cache (Fn counting)) () failing_world)))
              () later_world))))
            = [fst (call wall_clock
              (fst (snd (call wall_clock (CacheC ttl_cache (Fn counting)) () failing_world)))
              () later_world)]))"
proof -
  have h1: "0 < Expiry ttl_cache" and h2: "\<not> Retry ttl_cache"
    by (simp_all add: ttl_cache_def)
  obtain res1 v1 w1 tr1 where
    a: "call wall_clock (CacheC ttl_cache (Fn counting)) () failing_world = (res1, v1, w1, tr1)"
    using prod_cases4 by blast
  have tr1: "tr1 = [ClockRead 1000, BackoffReset, Invoked (1, Some ''resolve error''),
                    ClockRead 1000]"
    using a by (auto simp add: model_defs example_defs)
  then have h4: "invocations tr1 \<noteq> []" by simp
  obtain res2 v2 w2 tr2 where b: "call wall_clock v1 () later_world = (res2, v2, w2, tr2)"
    using prod_cases4 by blast
  from cache_ttl_window [OF h1 h2 a h4 b] h1 h2 h4 show ?thesis
    unfolding a b fst_conv snd_conv by simp
qed

subsection \<open>Where the cache resets its backoff policy\<close>

text \<open>
  Claim C8. In the log of one call of a cache, the calls of \<^verbatim>\<open>Reset\<close> and the invocation of
  the wrapped resolver are, in order: nothing when the cached result is served; otherwise a
  \<^verbatim>\<open>Reset\<close> before the invocation exactly when the cache had no value yet, the invocation,
  and a \<^verbatim>\<open>Reset\<close> after it exactly when the resolution succeeded, so none after a failed
  one. A call of a cache that has no value always resolves, and after any call the cache has
  a value: the first situation is the first call ever and no other.
\<close>

theorem backoff_reset_points:
  assumes "call tn (CacheC e (Fn f)) ctx w = (res, v', w', tr)"
  shows "filter (\<lambda>x. x = BackoffReset \<or> is_Invoked x) tr =
           (if invocations tr \<noteq> []
            then (if cvalue e = None then [BackoffReset] else []) @ [Invoked res]
                 @ (if snd res = None then [BackoffReset] else [])
            else [])
       \<and> (cvalue e = None \<longrightarrow> invocations tr \<noteq> [])
       \<and> (\<exists>e'. v' = CacheC e' (Fn f) \<and> cvalue e' \<noteq> None)"
  using cache_call_cases [OF assms]
  by (elim disjE exE conjE) (auto split: if_splits)

theorem backoff_reset_points_witness:
  "filter (\<lambda>x. x = BackoffReset \<or> is_Invoked x)
     (snd (snd (snd (call wall_clock (CacheC ttl_cache (Fn counting)) () failing_world))))
   = [BackoffReset, Invoked (1, Some ''resolve error'')]
   \<and> filter (\<lambda>x. x = BackoffReset \<or> is_Invoked x)
     (snd (snd (snd (call wall_clock (CacheC ttl_cache (Fn counting)) () world0))))
   = [BackoffReset, Invoked (1, None), BackoffReset]"
proof -
  obtain res1 v1 w1 tr1 where
    a: "call wall_clock (CacheC ttl_cache (Fn counting)) () failing_world = (res1, v1, w1, tr1)"
    using prod_cases4 by blast
  have a': "res1 = (1, Some ''resolve error'')" "invocations tr1 \<noteq> []"
    using a by (auto simp add: model_defs example_defs)
  obtain res2 v2 w2 tr2 where
    b: "call wall_clock (CacheC ttl_cache (Fn counting)) () world0 = (res2, v2, w2, tr2)"
    using prod_cases4 by blast
  have b': "res2 = (1, None)" "invocations tr2 \<noteq> []"
    using b by (auto simp add: model_defs example_defs)
  have c: "cvalue ttl_cache = None" by (simp add: ttl_cache_def)
  from backoff_reset_points [OF a] backoff_reset_points [OF b] a' b' c show ?thesis
    unfolding a b fst_conv snd_conv by simp
qed

subsection \<open>Serving the cached result\<close>

text \<open>
  Claim C9. When a cache holds a value and the instant it reads for its test is before
  \<^verbatim>\<open>nextResolve\<close>, the call returns the stored value and error and the cache is the same
  after the call as before it (value, error, \<^verbatim>\<open>nextResolve\<close> and options), as is the wrapped
  closure. The log is the two clock reads and nothing else: the wrapped resolver is not
  invoked and no method of the backoff policy is called, so that the world after the call
  is the one the two clock reads leave.
\<close>

theorem cache_hit_frame:
  assumes "cvalue e = Some v0"
    and "CacheOpts_now tn e w = (t0, w0)"
    and "CacheOpts_now tn e w0 = (t1, w1)"
    and "t1 < nextResolve e"
  shows "call tn (CacheC e r) ctx w = ((v0, err e), CacheC e r, w1, [ClockRead t0, ClockRead t1])"
  using assms by (simp add: cache_Resolve_def)

theorem cache_hit_frame_witness:
  "cvalue warm_cache = Some 7 \<and> (1000 :: int) < nextResolve warm_cache
   \<and> call wall_clock (CacheC warm_cache (Fn counting)) () world0
     = ((7, Some ''resolve error''), CacheC warm_cache (Fn counting), world0,
        [ClockRead 1000, ClockRead 1000])"
proof -
  have h1: "cvalue warm_cache = Some 7" by (simp add: warm_cache_def)
  have h2: "CacheOpts_now wall_clock warm_cache world0 = (1000, world0)"
    by (simp add: CacheOpts_now_def warm_cache_def ttl_cache_def test_clock_def world0_def)
  have h3: "(1000 :: int) < nextResolve warm_cache" by (simp add: warm_cache_def)
  from cache_hit_frame [OF h1 h2 h2 h3, of "Fn counting" "()"] h1 h3 show ?thesis
    by (simp add: warm_cache_def)
qed

subsection \<open>Sequences of calls\<close>

lemma call_Graceful_Fn:
  "call tn (GracefulC lg (Fn f)) c w =
     (case (snd (fst (f c w)), lg) of
        (Some x, Some g) \<Rightarrow> ((g, Some x), GracefulC lg (Fn f), snd (f c w), [Invoked (fst (f c w))])
      | _ \<Rightarrow> (fst (f c w), GracefulC (Some (fst (fst (f c w)))) (Fn f), snd (f c w),
               [Invoked (fst (f c w))]))"
  by (simp add: Graceful_call_def call_Fn split: prod.splits option.splits)

lemma calls_Cons:
  "calls tn v (c # cs) w =
     (fst (call tn v c w) # fst (calls tn (fst (snd (call tn v c w))) cs (fst (snd (snd (call tn v c w))))),
      fst (snd (calls tn (fst (snd (call tn v c w))) cs (fst (snd (snd (call tn v c w)))))),
      fst (snd (snd (calls tn (fst (snd (call tn v c w))) cs (fst (snd (snd (call tn v c w))))))),
      snd (snd (snd (call tn v c w))) @
      snd (snd (snd (calls tn (fst (snd (call tn v c w))) cs (fst (snd (snd (call tn v c w))))))))"
  by (simp add: case_prod_beta)

lemma calls_Fn_Cons:
  "fst (calls tn (Fn f) (c # cs) w) = fst (f c w) # fst (calls tn (Fn f) cs (snd (f c w)))"
  by (simp add: calls_Cons call_Fn del: calls.simps call.simps)

lemma calls_Graceful_Some_fail:
  "snd (fst (f c w)) = Some x \<Longrightarrow>
   fst (calls tn (GracefulC (Some g) (Fn f)) (c # cs) w) =
     (g, Some x) # fst (calls tn (GracefulC (Some g) (Fn f)) cs (snd (f c w)))"
  by (simp add: calls_Cons call_Graceful_Fn del: calls.simps call.simps)

lemma calls_Graceful_ok:
  "snd (fst (f c w)) = None \<Longrightarrow>
   fst (calls tn (GracefulC lg (Fn f)) (c # cs) w) =
     fst (f c w) # fst (calls tn (GracefulC (Some (fst (fst (f c w)))) (Fn f)) cs (snd (f c w)))"
  by (simp add: calls_Cons call_Graceful_Fn del: calls.simps call.simps split: option.splits)

lemma calls_Graceful_None:
  "fst (calls tn (GracefulC None (Fn f)) (c # cs) w) =
     fst (f c w) # fst (calls tn (GracefulC (Some (fst (fst (f c w)))) (Fn f)) cs (snd (f c w)))"
  by (simp add: calls_Cons call_Graceful_Fn del: calls.simps call.simps split: option.splits)

lemma calls_Fn_nonempty:
  assumes "fst (calls tn (Fn f) cs w) = x # xs"
  obtains c cs' where "cs = c # cs'" "fst (f c w) = x"
    "fst (calls tn (Fn f) cs' (snd (f c w))) = xs"
proof (cases cs)
  case Nil
  with assms show ?thesis by simp
next
  case (Cons c cs')
  with assms have "fst (f c w) = x" "fst (calls tn (Fn f) cs' (snd (f c w))) = xs"
    by (simp_all add: calls_Fn_Cons del: calls.simps)
  with Cons show ?thesis using that by blast
qed

lemma graceful_stale:
  assumes "fst (calls tn (Fn f) cs w) = fails @ (v, Some x) # post"
    and "\<forall>out \<in> set fails. snd out \<noteq> None"
  shows "fst (calls tn (GracefulC (Some g) (Fn f)) cs w) ! length fails = (g, Some x)"
  using assms
proof (induction fails arbitrary: cs w)
  case Nil
  then have "fst (calls tn (Fn f) cs w) = (v, Some x) # post" by simp
  then obtain c cs' where cs: "cs = c # cs'" and a: "fst (f c w) = (v, Some x)"
    by (rule calls_Fn_nonempty)
  from a have "snd (fst (f c w)) = Some x" by simp
  from calls_Graceful_Some_fail [where f = f and c = c and w = w, OF this] cs show ?case by simp
next
  case (Cons a fails)
  then have "fst (calls tn (Fn f) cs w) = a # (fails @ (v, Some x) # post)" by simp
  then obtain c cs' where cs: "cs = c # cs'" and a: "fst (f c w) = a"
    and rest: "fst (calls tn (Fn f) cs' (snd (f c w))) = fails @ (v, Some x) # post"
    by (rule calls_Fn_nonempty)
  from Cons.prems(2) have "snd a \<noteq> None" and fl: "\<forall>out \<in> set fails. snd out \<noteq> None"
    by simp_all
  with a obtain y where y: "snd (fst (f c w)) = Some y" by auto
  from Cons.IH [OF rest fl] have
    "fst (calls tn (GracefulC (Some g) (Fn f)) cs' (snd (f c w))) ! length fails = (g, Some x)" .
  with calls_Graceful_Some_fail [where f = f and c = c and w = w, OF y] cs show ?case by simp
qed

lemma graceful_last_good:
  assumes "fst (calls tn (Fn f) cs w) = pre @ (g, None) # fails @ (v, Some x) # post"
    and "\<forall>out \<in> set fails. snd out \<noteq> None"
  shows "fst (calls tn (GracefulC lg (Fn f)) cs w) ! (length pre + Suc (length fails)) = (g, Some x)"
  using assms
proof (induction pre arbitrary: cs w lg)
  case Nil
  then have "fst (calls tn (Fn f) cs w) = (g, None) # (fails @ (v, Some x) # post)" by simp
  then obtain c cs' where cs: "cs = c # cs'" and a: "fst (f c w) = (g, None)"
    and rest: "fst (calls tn (Fn f) cs' (snd (f c w))) = fails @ (v, Some x) # post"
    by (rule calls_Fn_nonempty)
  from a have ok: "snd (fst (f c w)) = None" and gv: "fst (fst (f c w)) = g" by simp_all
  from graceful_stale [OF rest Nil.prems(2)]
    calls_Graceful_ok [where f = f and c = c and w = w, OF ok] cs gv show ?case
    by simp
next
  case (Cons a pre)
  then have "fst (calls tn (Fn f) cs w) = a # (pre @ (g, None) # fails @ (v, Some x) # post)"
    by simp
  then obtain c cs' where cs: "cs = c # cs'" and a: "fst (f c w) = a"
    and rest: "fst (calls tn (Fn f) cs' (snd (f c w))) = pre @ (g, None) # fails @ (v, Some x) # post"
    by (rule calls_Fn_nonempty)
  have "\<exists>lg' r. fst (calls tn (GracefulC lg (Fn f)) (c # cs') w) =
           r # fst (calls tn (GracefulC lg' (Fn f)) cs' (snd (f c w)))"
    by (auto simp add: calls_Cons call_Graceful_Fn simp del: calls.simps call.simps
        split: option.splits)
  then obtain lg' r where
    "fst (calls tn (GracefulC lg (Fn f)) (c # cs') w) =
           r # fst (calls tn (GracefulC lg' (Fn f)) cs' (snd (f c w)))" by blast
  with Cons.IH [OF rest Cons.prems(2), of lg'] cs show ?case by simp
qed

lemma graceful_errors:
  "map snd (fst (calls tn (GracefulC lg (Fn f)) cs w)) = map snd (fst (calls tn (Fn f) cs w))"
proof (induction cs arbitrary: lg w)
  case Nil
  show ?case by simp
next
  case (Cons c cs)
  have "\<exists>lg' v. fst (calls tn (GracefulC lg (Fn f)) (c # cs) w) =
           (v, snd (fst (f c w))) # fst (calls tn (GracefulC lg' (Fn f)) cs (snd (f c w)))"
    by (auto simp add: calls_Cons call_Graceful_Fn prod_eq_iff simp del: calls.simps call.simps
        split: option.splits)
  then obtain lg' v where
    "fst (calls tn (GracefulC lg (Fn f)) (c # cs) w) =
           (v, snd (fst (f c w))) # fst (calls tn (GracefulC lg' (Fn f)) cs (snd (f c w)))"
    by blast
  with Cons.IH [of lg' "snd (f c w)"] show ?case
    by (simp add: calls_Fn_Cons del: calls.simps)
qed


lemma invocations_map_Invoked [simp]: "invocations (map Invoked xs) = xs"
  by (induction xs) simp_all

lemma calls_Fn:
  "snd (snd (snd (calls tn (Fn f) cs w))) = map Invoked (fst (calls tn (Fn f) cs w))
   \<and> length (fst (calls tn (Fn f) cs w)) = length cs"
  by (induction cs arbitrary: w) (simp_all add: calls_Cons call_Fn del: calls.simps(2) call.simps)

lemma calls_Graceful_Fn:
  "fst (snd (snd (calls tn (GracefulC lg (Fn f)) cs w))) = fst (snd (snd (calls tn (Fn f) cs w)))
   \<and> snd (snd (snd (calls tn (GracefulC lg (Fn f)) cs w))) = snd (snd (snd (calls tn (Fn f) cs w)))"
proof (induction cs arbitrary: lg w)
  case Nil
  show ?case by simp
next
  case (Cons c cs)
  have "\<exists>lg'. fst (snd (call tn (GracefulC lg (Fn f)) c w)) = GracefulC lg' (Fn f)"
    by (auto simp add: call_Graceful_Fn simp del: call.simps split: option.splits)
  then obtain lg' where a: "fst (snd (call tn (GracefulC lg (Fn f)) c w)) = GracefulC lg' (Fn f)"
    by blast
  have b: "fst (snd (snd (call tn (GracefulC lg (Fn f)) c w))) = snd (f c w)"
    "snd (snd (snd (call tn (GracefulC lg (Fn f)) c w))) = [Invoked (fst (f c w))]"
    by (auto simp add: call_Graceful_Fn simp del: call.simps split: option.splits)
  from Cons.IH [of lg' "snd (f c w)"] show ?case
    by (simp add: calls_Cons a b call_Fn del: calls.simps call.simps)
qed

lemma invocations_Safe [simp]: "invocations (MutexLock # tr @ [MutexUnlock]) = invocations tr"
  by simp

lemma calls_Safe:
  "fst (calls tn (SafeC r) cs w) = fst (calls tn r cs w)
   \<and> fst (snd (snd (calls tn (SafeC r) cs w))) = fst (snd (snd (calls tn r cs w)))
   \<and> invocations (snd (snd (snd (calls tn (SafeC r) cs w))))
       = invocations (snd (snd (snd (calls tn r cs w))))"
proof (induction cs arbitrary: r w)
  case Nil
  show ?case by simp
next
  case (Cons c cs)
  have a: "call tn (SafeC r) c w = (fst (call tn r c w), SafeC (fst (snd (call tn r c w))),
      fst (snd (snd (call tn r c w))), MutexLock # snd (snd (snd (call tn r c w))) @ [MutexUnlock])"
    by (simp add: case_prod_beta)
  from Cons.IH [of "fst (snd (call tn r c w))" "fst (snd (snd (call tn r c w)))"] show ?case
    by (simp add: calls_Cons a del: calls.simps call.simps)
qed


subsection \<open>Errors pass through every decorator\<close>

lemma cache_resolve_now_inner:
  assumes "cache_resolve_now tn rs e r ctx w tr = (res, e', r', w', tr')"
    and "rs ctx w = (res0, r0, w0, tr0)"
  shows "res = res0 \<and> r' = r0 \<and> (\<exists>mid. tr' = tr @ tr0 @ mid \<and> invocations mid = [])"
  using assms
  by (cases res0) (auto simp add: cache_resolve_now_def Let_def split: prod.splits if_splits)

lemma Invoked_in_invocations: "Invoked res \<in> set tr \<Longrightarrow> res \<in> set (invocations tr)"
  by (induction tr rule: invocations.induct) auto

lemma invocations_in_Invoked: "res \<in> set (invocations tr) \<Longrightarrow> Invoked res \<in> set tr"
  by (induction tr rule: invocations.induct) auto

text \<open>No stack of decorators changes the error of the user function it invoked.\<close>

lemma error_passes:
  "call tn p c w = (res, p', w', tr) \<Longrightarrow> (val, er) \<in> set (invocations tr) \<Longrightarrow> snd res = er"
proof (induction p arbitrary: res p' w' tr w)
  case (Fn f)
  then show ?case by (auto split: prod.splits)
next
  case (StaticC v)
  then show ?case by auto
next
  case (GracefulC lg p)
  obtain res0 p0 w0 tr0 where i: "call tn p c w = (res0, p0, w0, tr0)"
    using prod_cases4 by blast
  with GracefulC.prems have "tr = tr0" "snd res = snd res0"
    by (auto simp add: Graceful_call_def split: prod.splits option.splits)
  with GracefulC.IH [OF i] GracefulC.prems(2) show ?case by simp
next
  case (CacheC e p)
  obtain t0 w0 where a: "CacheOpts_now tn e w = (t0, w0)" by fastforce
  obtain t1 w1 where b: "CacheOpts_now tn e w0 = (t1, w1)" by fastforce
  obtain res1 e1 r1 w2 tr1 where c:
    "cache_Resolve tn (call tn p) e p c w = (res1, e1, r1, w2, tr1)"
    using prod_cases5 by blast
  with CacheC.prems(1) have eq: "res = res1" "tr = tr1" by simp_all
  have "\<exists>wi pre. cache_Resolve tn (call tn p) e p c w
            = cache_resolve_now tn (call tn p) e p c wi pre \<and> invocations pre = []
        \<or> invocations tr1 = []"
  proof (cases "cvalue e")
    case None
    from cache_Resolve_first [OF None a, where resolvable = "call tn p" and r = p and ctx = c]
    show ?thesis by (intro exI [of _ "Reset (cache_backoff e) w0"]
        exI [of _ "[ClockRead t0, BackoffReset]"]) simp
  next
    case (Some v0)
    show ?thesis
    proof (cases "t1 < nextResolve e")
      case True
      from cache_Resolve_hit [OF Some a b True, where resolvable = "call tn p" and r = p
          and ctx = c] c
      show ?thesis by simp
    next
      case False
      from cache_Resolve_expired [OF Some a b False, where resolvable = "call tn p" and r = p
          and ctx = c]
      show ?thesis by (intro exI [of _ w1] exI [of _ "[ClockRead t0, ClockRead t1]"]) simp
    qed
  qed
  then consider (miss) wi pre where
      "cache_resolve_now tn (call tn p) e p c wi pre = (res1, e1, r1, w2, tr1)"
      "invocations pre = []"
    | (hit) "invocations tr1 = []"
    using c by auto
  then show ?case
  proof cases
    case miss
    obtain res0 p0 w0' tr0 where i: "call tn p c wi = (res0, p0, w0', tr0)"
      using prod_cases4 by blast
    from cache_resolve_now_inner [OF miss(1) i] obtain mid where
      "res1 = res0" "tr1 = pre @ tr0 @ mid" "invocations mid = []" by blast
    with miss(2) eq CacheC.prems(2) have "(val, er) \<in> set (invocations tr0)" "res = res0"
      by simp_all
    with CacheC.IH [OF i] show ?thesis by simp
  next
    case hit
    with eq CacheC.prems(2) show ?thesis by simp
  qed
next
  case (SafeC p)
  obtain res0 p0 w0 tr0 where i: "call tn p c w = (res0, p0, w0, tr0)"
    using prod_cases4 by blast
  with SafeC.prems have "tr = MutexLock # tr0 @ [MutexUnlock]" "res = res0" by auto
  with SafeC.IH [OF i] SafeC.prems(2) show ?case by auto
qed

subsection \<open>Graceful\<close>

text \<open>
  Claim C6. Let the wrapped resolver, called once for each context of a list, return a value
  \<open>g\<close> with no error, then fail any number of times, then return \<open>v\<close> with the error \<open>x\<close>.
  Graceful around it returns \<open>(g, x)\<close> at that call: the last good value with the new
  error. At every call the error Graceful returns is the one the wrapped resolver returned
  at that call. And for any stack of decorators of this package, the error a call returns
  is the error of the user function the call invoked.
\<close>

theorem graceful_substitutes_value_only:
  assumes "fst (calls tn (Fn f) ctxs w) = pre @ (g, None) # fails @ (v, Some x) # post"
    and "\<forall>out \<in> set fails. snd out \<noteq> None"
  shows "fst (calls tn (Graceful (Fn f)) ctxs w) ! (length pre + Suc (length fails)) = (g, Some x)
       \<and> map snd (fst (calls tn (Graceful (Fn f)) ctxs w)) = map snd (fst (calls tn (Fn f) ctxs w))
       \<and> (\<forall>p c w0 res p' w' tr val er.
            call tn p c w0 = (res, p', w', tr) \<longrightarrow> Invoked (val, er) \<in> set tr \<longrightarrow>
            snd res = er)"
proof -
  have a: "fst (calls tn (Graceful (Fn f)) ctxs w) ! (length pre + Suc (length fails))
      = (g, Some x)"
    unfolding Graceful_def by (rule graceful_last_good [OF assms])
  have b: "map snd (fst (calls tn (Graceful (Fn f)) ctxs w))
      = map snd (fst (calls tn (Fn f) ctxs w))"
    unfolding Graceful_def by (rule graceful_errors)
  from a b show ?thesis
    by (meson error_passes Invoked_in_invocations)
qed

theorem graceful_substitutes_value_only_witness:
  "fst (calls wall_clock (Fn alternating) [(), (), (), ()] world0)
     = [] @ (1, None) # [] @ (2, Some ''resolve error'') # [(3, None), (4, Some ''resolve error'')]
   \<and> fst (calls wall_clock (Graceful (Fn alternating)) [(), (), (), ()] world0)
       ! (length ([] :: (nat, string) result list) + Suc (length ([] :: (nat, string) result list)))
     = (1, Some ''resolve error'')
   \<and> map snd (fst (calls wall_clock (Graceful (Fn alternating)) [(), (), (), ()] world0))
     = [None, Some ''resolve error'', None, Some ''resolve error'']"
proof -
  have h1: "fst (calls wall_clock (Fn alternating) [(), (), (), ()] world0)
     = [] @ (1, None) # [] @ (2, Some ''resolve error'') # [(3, None), (4, Some ''resolve error'')]"
    by (simp add: example_defs)
  have h2: "\<forall>out \<in> set ([] :: (nat, string) result list). snd out \<noteq> None" by simp
  from graceful_substitutes_value_only [OF h1 h2]
  have a: "fst (calls wall_clock (Graceful (Fn alternating)) [(), (), (), ()] world0)
       ! (length ([] :: (nat, string) result list) + Suc (length ([] :: (nat, string) result list)))
     = (1, Some ''resolve error'')"
    and b: "map snd (fst (calls wall_clock (Graceful (Fn alternating)) [(), (), (), ()] world0))
     = map snd (fst (calls wall_clock (Fn alternating) [(), (), (), ()] world0))"
    by blast+
  from a b h1 show ?thesis
    by (simp del: calls.simps call.simps)
qed

text \<open>
  Claim C4 says that while the wrapped resolver has never succeeded, Graceful returns each
  failing call's own value. The closure stores the value of the first call whatever its
  error (\<^verbatim>\<open>lastGood = &v\<close> is reached when \<^verbatim>\<open>lastGood\<close> is \<^verbatim>\<open>nil\<close>), so a second failing
  call returns the first failure's value: with the resolver of \<^verbatim>\<open>TestGraceful\<close> failing
  from the start, the wrapped resolver returns 1 and then 2, and Graceful returns 1 twice.
\<close>

theorem graceful_keeps_failed_value:
  "fst (calls wall_clock (Graceful (Fn counting)) [(), ()] failing_world)
     = [(1, Some ''resolve error''), (1, Some ''resolve error'')]
   \<and> invocations (snd (snd (snd (calls wall_clock (Graceful (Fn counting)) [(), ()] failing_world))))
     = [(1, Some ''resolve error''), (2, Some ''resolve error'')]"
  by (simp add: model_defs example_defs)

subsection \<open>New\<close>

lemma New_shape:
  "New fn opts =
     (let os = apply_options opts;
          inner = (if graceful os then GracefulC None (Fn fn) else Fn fn);
          cached =
            (if 0 < expiry os then
               CacheC \<lparr>Expiry = expiry os, Retry = retry os, Now = now os,
                 RetryOpts = \<lparr>Backoff = None, MaxTries = 0\<rparr>,
                 cvalue = None, err = None, nextResolve = 0\<rparr> inner
             else if retry os then
               CacheC \<lparr>Expiry = 0, Retry = True, Now = None, RetryOpts = retryOpts os,
                 cvalue = None, err = None, nextResolve = 0\<rparr> inner
             else if once os then
               CacheC \<lparr>Expiry = 0, Retry = False, Now = None,
                 RetryOpts = \<lparr>Backoff = None, MaxTries = 0\<rparr>,
                 cvalue = None, err = None, nextResolve = 0\<rparr> inner
             else inner)
      in if safe os then SafeC cached else cached)"
  by (simp add: New_def Let_def Graceful_def Cache_def Retry_fn_def Once_def Safe_def
      CacheOpts.extend_def cache.fields_def)


text \<open>
  Claim C5. \<^verbatim>\<open>New\<close> wraps the user function in Graceful if \<^verbatim>\<open>graceful\<close> is set; then in one
  cache or none: with \<^verbatim>\<open>expiry > 0\<close> a cache with that expiry and \<^verbatim>\<open>Retry = retry\<close>, else
  with \<^verbatim>\<open>retry\<close> a cache with expiry 0 and \<^verbatim>\<open>Retry = true\<close>, else with \<^verbatim>\<open>once\<close> a cache with
  expiry 0 and \<^verbatim>\<open>Retry = false\<close>; then in the mutex, outermost, if \<^verbatim>\<open>safe\<close> is set, which it
  is when no option is given. Every decorator starts with its state empty.
\<close>

theorem New_composition:
  "New fn opts =
     (let os = apply_options opts;
          inner = (if graceful os then GracefulC None (Fn fn) else Fn fn);
          cached =
            (if 0 < expiry os then
               CacheC \<lparr>Expiry = expiry os, Retry = retry os, Now = now os,
                 RetryOpts = \<lparr>Backoff = None, MaxTries = 0\<rparr>,
                 cvalue = None, err = None, nextResolve = 0\<rparr> inner
             else if retry os then
               CacheC \<lparr>Expiry = 0, Retry = True, Now = None, RetryOpts = retryOpts os,
                 cvalue = None, err = None, nextResolve = 0\<rparr> inner
             else if once os then
               CacheC \<lparr>Expiry = 0, Retry = False, Now = None,
                 RetryOpts = \<lparr>Backoff = None, MaxTries = 0\<rparr>,
                 cvalue = None, err = None, nextResolve = 0\<rparr> inner
             else inner)
      in if safe os then SafeC cached else cached)
   \<and> layers (New fn opts) =
       (if safe (apply_options opts) then [MutexL] else [])
       @ (if 0 < expiry (apply_options opts)
            then [CacheL (expiry (apply_options opts)) (retry (apply_options opts))]
          else if retry (apply_options opts) then [CacheL 0 True]
          else if once (apply_options opts) then [CacheL 0 False]
          else [])
       @ (if graceful (apply_options opts) then [GracefulL] else [])
       @ [UserFn]
   \<and> New fn [] = SafeC (Fn fn)"
  by (simp add: New_shape Let_def apply_options_def default_options_def)

theorem New_composition_witness:
  "layers (New counting [WithOnce, WithRetry, WithCacheTTL 5, WithGraceful])
     = [MutexL, CacheL 5 True, GracefulL, UserFn]
   \<and> layers (New counting [WithOnce, WithRetry, WithUnsafe]) = [CacheL 0 True, UserFn]
   \<and> layers (New counting [WithUnsafe, WithOnce, WithSafe]) = [MutexL, CacheL 0 False, UserFn]"
  using New_composition [of counting "[WithOnce, WithRetry, WithCacheTTL 5, WithGraceful]"]
    New_composition [of counting "[WithOnce, WithRetry, WithUnsafe]"]
    New_composition [of counting "[WithUnsafe, WithOnce, WithSafe]"]
  by (simp add: apply_options_def default_options_def WithOnce_def WithRetry_def
      WithCacheTTL_def WithGraceful_def WithUnsafe_def WithSafe_def)

text \<open>
  Claim C10. When the options leave \<^verbatim>\<open>expiry\<close> zero or negative and neither \<^verbatim>\<open>retry\<close> nor
  \<^verbatim>\<open>once\<close> is set, \<^verbatim>\<open>New\<close> adds no cache: the layers are the mutex if \<^verbatim>\<open>safe\<close>, Graceful if
  \<^verbatim>\<open>graceful\<close>, and the user function. Over any sequence of calls the user function is
  invoked at every call (the invocations logged are the results of calling it once per
  context, as many as there are contexts), every call returns the error of its own
  invocation, and without Graceful it returns its value too.
\<close>

theorem New_without_cache:
  assumes "expiry (apply_options opts) \<le> 0"
    and "\<not> retry (apply_options opts)" and "\<not> once (apply_options opts)"
  shows "layers (New fn opts) =
           (if safe (apply_options opts) then [MutexL] else [])
           @ (if graceful (apply_options opts) then [GracefulL] else []) @ [UserFn]
       \<and> invocations (snd (snd (snd (calls tn (New fn opts) ctxs w))))
           = fst (calls tn (Fn fn) ctxs w)
       \<and> length (fst (calls tn (Fn fn) ctxs w)) = length ctxs
       \<and> map snd (fst (calls tn (New fn opts) ctxs w)) = map snd (fst (calls tn (Fn fn) ctxs w))
       \<and> (\<not> graceful (apply_options opts) \<longrightarrow>
            fst (calls tn (New fn opts) ctxs w) = fst (calls tn (Fn fn) ctxs w))"
  using assms
  by (simp add: New_shape Let_def calls_Safe calls_Graceful_Fn calls_Fn graceful_errors
      del: calls.simps call.simps)

theorem New_without_cache_witness:
  "expiry (apply_options [WithCacheTTL 0 :: world options \<Rightarrow> world options]) \<le> 0
   \<and> layers (New counting [WithCacheTTL 0]) = [MutexL, UserFn]
   \<and> invocations (snd (snd (snd (calls wall_clock (New counting [WithCacheTTL 0]) [(), ()] world0))))
       = [(1, None), (2, None)]
   \<and> fst (calls wall_clock (New counting [WithCacheTTL 0]) [(), ()] world0)
       = [(1, None), (2, None)]"
proof -
  have h: "expiry (apply_options [WithCacheTTL 0 :: world options \<Rightarrow> world options]) \<le> 0"
    "\<not> retry (apply_options [WithCacheTTL 0 :: world options \<Rightarrow> world options])"
    "\<not> once (apply_options [WithCacheTTL 0 :: world options \<Rightarrow> world options])"
    "safe (apply_options [WithCacheTTL 0 :: world options \<Rightarrow> world options])"
    "\<not> graceful (apply_options [WithCacheTTL 0 :: world options \<Rightarrow> world options])"
    by (simp_all add: apply_options_def default_options_def WithCacheTTL_def)
  have f: "fst (calls wall_clock (Fn counting) [(), ()] world0) = [(1, None), (2, None)]"
    by (simp add: example_defs)
  from New_without_cache [OF h(1-3), of counting wall_clock "[(), ()]" world0] h f
  show ?thesis by simp
qed

subsection \<open>A cache with no time to live\<close>

text \<open>With \<^verbatim>\<open>Expiry\<close> zero the window is empty: unless the clock has gone back, the call after
  a resolution resolves again.\<close>

lemma zero_expiry_resolves_again:
  assumes "Expiry e0 = 0" and "snd res1 = None \<or> \<not> Retry e0"
    and "call tn (CacheC e0 (Fn f)) ctx w0 = (res1, v1, w1, tr1)"
    and "invocations tr1 \<noteq> []"
    and "call tn v1 ctx' w = (res2, v2, w2, tr2)"
  shows "\<exists>t_r t0 t rest. last tr1 = ClockRead t_r \<and> tr2 = ClockRead t0 # ClockRead t # rest
     \<and> (t_r \<le> t \<longrightarrow> invocations tr2 = [res2])"
  using cache_window [OF assms(2-5)] assms(1) by auto

text \<open>
  Claim C1 says that the cache of \<^verbatim>\<open>Once\<close> invokes the wrapped resolver once over any number
  of calls. \<^verbatim>\<open>Resolve\<close> sets \<^verbatim>\<open>nextResolve\<close> to the instant it read plus an \<^verbatim>\<open>Expiry\<close> of zero
  and serves the cached result only before that instant, so that the second call of
  \<^verbatim>\<open>TestOnce\<close> invokes the resolver again and returns 2, where the test expects 1.
\<close>

theorem once_resolves_again:
  "calls wall_clock (Once (Fn counting)) [(), ()] world0 =
     ([(1, None), (2, None)],
      CacheC \<lparr>Expiry = 0, Retry = False, Now = None, RetryOpts = \<lparr>Backoff = None, MaxTries = 0\<rparr>,
        cvalue = Some 2, err = None, nextResolve = 1004\<rparr> (Fn counting),
      \<lparr>count = 2, resolveErr = None, clock = 1005\<rparr>,
      [ClockRead 1000, BackoffReset, Invoked (1, None), BackoffReset, ClockRead 1001,
       ClockRead 1002, ClockRead 1003, Invoked (2, None), BackoffReset, ClockRead 1004])"
  by (simp add: model_defs example_defs)

text \<open>
  Claim C2 says that the cache of \<^verbatim>\<open>Retry\<close> keeps the first successful value on all later
  calls. For the same reason the call after the success resolves again: the resolver of the
  test \<^verbatim>\<open>retryable\<close> is invoked a fourth time and the fourth call returns 4, where the test
  expects 3 and no further invocation.
\<close>

theorem retry_success_not_kept:
  "fst (calls wall_clock (Retry_fn (Fn retryable) \<lparr>Backoff = None, MaxTries = 0\<rparr>)
       [(), (), (), ()] world0)
    = [(0, Some ''try again''), (0, Some ''try again''), (3, None), (4, None)]
   \<and> invocations (snd (snd (snd (calls wall_clock
        (Retry_fn (Fn retryable) \<lparr>Backoff = None, MaxTries = 0\<rparr>) [(), (), (), ()] world0))))
    = [(0, Some ''try again''), (0, Some ''try again''), (3, None), (4, None)]"
  by (simp add: model_defs example_defs)

subsection \<open>A backoff policy that stops\<close>

text \<open>After \<^verbatim>\<open>NextBackOff\<close> has returned \<^verbatim>\<open>BackOffStop\<close> the cache is due one nanosecond before
  the instant it read: unless the clock has gone back, the next call resolves again.\<close>

lemma stop_resolves_again:
  assumes "call tn (CacheC e0 (Fn f)) ctx w0 = (res1, v1, w1, tr1)"
    and "BackoffNext BackOffStop \<in> set tr1"
    and "call tn v1 ctx' w = (res2, v2, w2, tr2)"
  shows "\<exists>t_r t0 t rest. last tr1 = ClockRead t_r \<and> tr2 = ClockRead t0 # ClockRead t # rest
     \<and> (t_r \<le> t \<longrightarrow> invocations tr2 = [res2])"
proof -
  from cache_call_cases [OF assms(1)] assms(2)
  obtain t_r where l: "last tr1 = ClockRead t_r"
    and v1: "v1 = CacheC (e0\<lparr>cvalue := Some (fst res1), err := snd res1,
                          nextResolve := t_r + BackOffStop\<rparr>) (Fn f)"
    by (elim disjE exE conjE) (auto split: if_splits)
  let ?e1 = "e0\<lparr>cvalue := Some (fst res1), err := snd res1, nextResolve := t_r + BackOffStop\<rparr>"
  have "cvalue ?e1 = Some (fst res1)" by simp
  from cache_call_Some [OF this assms(3) [unfolded v1]] l show ?thesis
    by (auto simp add: BackOffStop_def)
qed

text \<open>
  Claim C7 says that once \<^verbatim>\<open>NextBackOff\<close> has returned \<^verbatim>\<open>BackOffStop\<close> the wrapped resolver
  is never invoked again. \<^verbatim>\<open>Resolve\<close> adds the value returned, \<open>-1\<close>, to the instant it read,
  as it does with any delay: with a policy that has stopped and a resolver that fails, the
  second call invokes the resolver again.
\<close>

theorem stop_is_retried:
  "snd (snd (snd (calls wall_clock
      (Retry_fn (Fn counting) \<lparr>Backoff = Some exhausted, MaxTries = 0\<rparr>) [(), ()] failing_world)))
    = [ClockRead 1000, BackoffReset, Invoked (1, Some ''resolve error''),
       BackoffNext BackOffStop, ClockRead 1001,
       ClockRead 1002, ClockRead 1003, Invoked (2, Some ''resolve error''),
       BackoffNext BackOffStop, ClockRead 1004]"
  by (simp add: model_defs example_defs)

subsection \<open>The earlier revision\<close>

lemma expirable_forever:
  assumes "Expiry e \<le> 0" and "resolvedAt e \<noteq> 0"
  shows "expirable_Resolve tn resolvable e r ctx w = ((xvalue e, xerr e), e, r, w, [])"
  using assms by (simp add: expirable_Resolve_def expirable_expired_def)

lemma expirable_first:
  assumes "resolvedAt e = 0" and "\<not> Retry e"
    and "resolvable ctx w = ((v, er), r', w1, tr1)"
    and "CacheOpts_now tn e w1 = (t, w2)"
  shows "expirable_Resolve tn resolvable e r ctx w =
           ((v, er), e\<lparr>xvalue := v, xerr := er, resolvedAt := t\<rparr>, r', w2, tr1 @ [ClockRead t])"
  using assms
  by (simp add: expirable_Resolve_def expirable_expired_def CacheOpts_now_def Let_def)

lemma expirable_hit:
  assumes "resolvedAt e \<noteq> 0" and "0 < Expiry e"
    and "CacheOpts_now tn e w = (t, w1)" and "t - resolvedAt e < Expiry e"
  shows "expirable_Resolve tn resolvable e r ctx w = ((xvalue e, xerr e), e, r, w1, [ClockRead t])"
  using assms by (simp add: expirable_Resolve_def expirable_expired_def)

text \<open>The two closures of \<^verbatim>\<open>Graceful\<close> return the same.\<close>

lemma Graceful_call_flag_eq:
  "Graceful_call_flag resolvable (lastGood, hasValue) r ctx w = (res, (lastGood', hasValue'), r', w', tr)
   \<Longrightarrow> Graceful_call resolvable (if hasValue then Some lastGood else None) r ctx w
       = (res, (if hasValue' then Some lastGood' else None), r', w', tr)"
  by (auto simp add: Graceful_call_flag_def Graceful_call_def split: prod.splits option.splits if_splits)


end
